theory Spec2Isabelle
  imports Main "HOL-Library.Word"
begin

section \<open>AgriProof claim registry: the contract as a state transformer\<close>

text \<open>
  The contract of \<^verbatim>\<open>smart_contracts/agriproof/contract.py\<close> keeps its data in boxes of
  the ledger: one box \<^verbatim>\<open>"enrollment_" + sender\<close> and one box \<^verbatim>\<open>"claim_" + sender\<close> per
  account, one box \<^verbatim>\<open>"verifiers"\<close>, and the global \<^verbatim>\<open>admin\<close>.  The three families of
  box names start with different bytes, so they never collide; the state below keeps
  them apart as three components.  The enrollment and claim boxes hold ARC4 structs and
  are kept as records; the verifier box is a raw byte string, cut into 32-byte entries
  by the code itself, and is kept as bytes.

  \<^verbatim>\<open>Txn.sender\<close> and \<^verbatim>\<open>Global.latest_timestamp\<close> are arguments of every method.  Events
  (\<^verbatim>\<open>arc4.emit\<close>) are written after the last store access of a method and are never read
  back; they are left out.
\<close>

subsection \<open>Data\<close>

type_synonym byte = "8 word"
type_synonym bytes = "byte list"
type_synonym uint64 = "64 word"

text \<open>An account address (\<^verbatim>\<open>arc4.Address\<close>, \<^verbatim>\<open>Txn.sender.bytes\<close>): exactly 32 bytes.\<close>

typedef address = "{bs :: byte list. length bs = 32}"
  by (rule exI [of _ "replicate 32 0"]) simp

definition bytes_of :: "address \<Rightarrow> bytes" where
  "bytes_of a = Rep_address a"

text \<open>\<^verbatim>\<open>arc4.Address()\<close>: the zero address.\<close>

definition zero_address :: address where
  "zero_address = Abs_address (replicate 32 0)"

text \<open>The address whose 32 bytes all equal \<open>b\<close>; used to write concrete accounts.\<close>

definition addr :: "byte \<Rightarrow> address" where
  "addr b = Abs_address (replicate 32 b)"

text \<open>
  The assertion messages of the contract, and the two ways the virtual machine itself
  aborts a call in this code: an overflow of \<^verbatim>\<open>+\<close> or \<^verbatim>\<open>*\<close> on \<^verbatim>\<open>UInt64\<close>, and a
  \<^verbatim>\<open>BoxRef.put\<close> the store refuses.
\<close>

datatype error =
    ERR_ALREADY_ENROLLED
  | ERR_INVALID_DEADLINE
  | ERR_NOT_ENROLLED
  | ERR_DEADLINE_PASSED
  | ERR_DUPLICATE_CLAIM
  | ERR_INVALID_PROOF_HASH
  | ERR_NOT_VERIFIER
  | ERR_CLAIM_NOT_FOUND
  | ERR_CLAIM_NOT_PENDING
  | ERR_NOT_ADMIN
  | ERR_VERIFIER_EXISTS
  | ERR_VERIFIER_NOT_FOUND
  | ERR_ENROLLMENT_NOT_FOUND
  | UInt64_overflow
  | Box_put_size_mismatch

definition SECONDS_PER_DAY :: uint64 where
  "SECONDS_PER_DAY = 86400"

text \<open>\<^verbatim>\<open>class ClaimStatus(arc4.UInt8)\<close>\<close>

definition PENDING :: "8 word" where
  "PENDING = 0"

definition APPROVED :: "8 word" where
  "APPROVED = 1"

definition REJECTED :: "8 word" where
  "REJECTED = 2"

record Claim =
  proof_hash :: string
  status :: "8 word"
  submission_timestamp :: uint64
  verifier_address :: address
  verification_timestamp :: uint64

record Enrollment =
  enrollment_timestamp :: uint64
  claim_deadline :: uint64

record state =
  admin :: address
  enrollment_box :: "address \<rightharpoonup> Enrollment"
  claim_box :: "address \<rightharpoonup> Claim"
  verifiers_box :: "bytes option"

subsection \<open>The virtual machine's arithmetic and the store's \<^verbatim>\<open>put\<close>\<close>

text \<open>\<^verbatim>\<open>UInt64\<close> addition and multiplication abort the call on overflow.\<close>

definition checked_add :: "uint64 \<Rightarrow> uint64 \<Rightarrow> uint64 option" where
  "checked_add a b = (if unat a + unat b < 2 ^ 64 then Some (a + b) else None)"

definition checked_mul :: "uint64 \<Rightarrow> uint64 \<Rightarrow> uint64 option" where
  "checked_mul a b = (if unat a * unat b < 2 ^ 64 then Some (a * b) else None)"

text \<open>
  \<^verbatim>\<open>BoxRef.put\<close> on a box that exists.  The ledger's \<^verbatim>\<open>box_put\<close> refuses a value whose
  length differs from the size of the box (\<open>Exact_size\<close>); the store of the
  specification, with plain \<^verbatim>\<open>put(key, bytes)\<close>, takes any value (\<open>Any_size\<close>).  Every
  method takes the rule as its first argument, and every theorem below holds for both.
\<close>

datatype put_rule = Exact_size | Any_size

definition put_ok :: "put_rule \<Rightarrow> nat \<Rightarrow> nat \<Rightarrow> bool" where
  "put_ok r box_size value_length =
     (case r of Exact_size \<Rightarrow> box_size = value_length | Any_size \<Rightarrow> True)"

text \<open>
  Length of \<^verbatim>\<open>claim.bytes\<close>: the ARC4 head (2-byte offset of the string, status,
  submission timestamp, verifier address, verification timestamp: 51 bytes) and the
  string's 2-byte length and bytes.
\<close>

definition claim_size :: "Claim \<Rightarrow> nat" where
  "claim_size c = 51 + (2 + length (proof_hash c))"

text \<open>
  \<^verbatim>\<open>op.extract(b, start, n)\<close>.  The machine aborts when \<open>start + n\<close> exceeds the length
  of \<open>b\<close>; both loops below call it with \<open>start = i * 32\<close> for \<open>i < length b div 32\<close>
  only, where the range lies inside \<open>b\<close>.
\<close>

definition op_extract :: "bytes \<Rightarrow> nat \<Rightarrow> nat \<Rightarrow> bytes" where
  "op_extract b start n = take n (drop start b)"

subsection \<open>The verifier list\<close>

text \<open>\<^verbatim>\<open>_verifier_in_list\<close>: the loop \<^verbatim>\<open>for i in range(num_verifiers)\<close> over the indices.\<close>

primrec verifier_in_list_loop :: "bytes \<Rightarrow> bytes \<Rightarrow> nat list \<Rightarrow> bool" where
  "verifier_in_list_loop verifiers_bytes address_bytes [] = False"
| "verifier_in_list_loop verifiers_bytes address_bytes (i # is) =
     (if op_extract verifiers_bytes (i * 32) 32 = address_bytes then True
      else verifier_in_list_loop verifiers_bytes address_bytes is)"

definition verifier_in_list :: "bytes \<Rightarrow> bytes \<Rightarrow> bool" where
  "verifier_in_list verifiers_bytes address_bytes =
     (let num_verifiers = length verifiers_bytes div 32
      in verifier_in_list_loop verifiers_bytes address_bytes [0..<num_verifiers])"

text \<open>\<^verbatim>\<open>_remove_from_list\<close>: the loop with its accumulator \<^verbatim>\<open>result\<close>.\<close>

primrec remove_from_list_loop :: "bytes \<Rightarrow> bytes \<Rightarrow> bytes \<Rightarrow> nat list \<Rightarrow> bytes" where
  "remove_from_list_loop verifiers_bytes address_bytes result [] = result"
| "remove_from_list_loop verifiers_bytes address_bytes result (i # is) =
     (let verifier = op_extract verifiers_bytes (i * 32) 32
      in remove_from_list_loop verifiers_bytes address_bytes
           (if verifier \<noteq> address_bytes then result @ verifier else result) is)"

definition remove_from_list :: "bytes \<Rightarrow> bytes \<Rightarrow> bytes" where
  "remove_from_list verifiers_bytes address_bytes =
     (let num_verifiers = length verifiers_bytes div 32
      in remove_from_list_loop verifiers_bytes address_bytes [] [0..<num_verifiers])"

text \<open>\<^verbatim>\<open>_is_verifier\<close>, and the read-only method \<^verbatim>\<open>is_verifier\<close> that returns its result.\<close>

definition is_verifier :: "state \<Rightarrow> address \<Rightarrow> bool" where
  "is_verifier s a =
     (case verifiers_box s of
        None \<Rightarrow> False
      | Some verifiers_bytes \<Rightarrow> verifier_in_list verifiers_bytes (bytes_of a))"

text \<open>The entries of a verifier blob, as the two loops read them.\<close>

definition chunks :: "bytes \<Rightarrow> bytes list" where
  "chunks b = map (\<lambda>i. op_extract b (i * 32) 32) [0..<length b div 32]"

subsection \<open>The methods\<close>

text \<open>
  A method returns \<open>(None, s')\<close> when it runs to its end, and \<open>(Some e, s')\<close> when it
  aborts with \<open>e\<close>, where \<open>s'\<close> is the store as the method left it at the abort.  The
  ledger then discards the writes of an aborted call.
\<close>

text \<open>\<^verbatim>\<open>create\<close>: the deployer becomes admin; no box exists yet.\<close>

definition create :: "address \<Rightarrow> state" where
  "create sender =
     \<lparr>admin = sender, enrollment_box = Map.empty, claim_box = Map.empty,
      verifiers_box = None\<rparr>"

text \<open>
  \<^verbatim>\<open>enroll_farmer\<close> and \<^verbatim>\<open>submit_claim\<close> write their record with
  \<^verbatim>\<open>create(size=record.bytes.length)\<close> followed by \<^verbatim>\<open>put(record.bytes)\<close> on a box that
  did not exist: the value has the size of the box, the \<^verbatim>\<open>put\<close> is accepted under either
  rule, and the pair is one write of the record.
\<close>

definition enroll_farmer ::
  "put_rule \<Rightarrow> address \<Rightarrow> uint64 \<Rightarrow> uint64 \<Rightarrow> state \<Rightarrow> error option \<times> state" where
  "enroll_farmer r sender now deadline_days s =
     (if \<not> 0 < deadline_days then (Some ERR_INVALID_DEADLINE, s)
      else if enrollment_box s sender \<noteq> None then (Some ERR_ALREADY_ENROLLED, s)
      else
        (case checked_mul deadline_days SECONDS_PER_DAY of
           None \<Rightarrow> (Some UInt64_overflow, s)
         | Some secs \<Rightarrow>
             (case checked_add now secs of
                None \<Rightarrow> (Some UInt64_overflow, s)
              | Some deadline \<Rightarrow>
                  (None,
                   s\<lparr>enrollment_box := (enrollment_box s)(sender \<mapsto>
                        \<lparr>enrollment_timestamp = now, claim_deadline = deadline\<rparr>)\<rparr>))))"

definition submit_claim ::
  "put_rule \<Rightarrow> address \<Rightarrow> uint64 \<Rightarrow> string \<Rightarrow> state \<Rightarrow> error option \<times> state" where
  "submit_claim r sender now hash s =
     (if \<not> hash \<noteq> [] then (Some ERR_INVALID_PROOF_HASH, s)
      else
        (case enrollment_box s sender of
           None \<Rightarrow> (Some ERR_NOT_ENROLLED, s)
         | Some enrollment \<Rightarrow>
             if \<not> now < claim_deadline enrollment then (Some ERR_DEADLINE_PASSED, s)
             else if claim_box s sender \<noteq> None then (Some ERR_DUPLICATE_CLAIM, s)
             else
               (None,
                s\<lparr>claim_box := (claim_box s)(sender \<mapsto>
                     \<lparr>proof_hash = hash, status = 0, submission_timestamp = now,
                      verifier_address = zero_address, verification_timestamp = 0\<rparr>)\<rparr>)))"

definition verify_claim ::
  "put_rule \<Rightarrow> address \<Rightarrow> uint64 \<Rightarrow> address \<Rightarrow> bool \<Rightarrow> state \<Rightarrow> error option \<times> state" where
  "verify_claim r sender now farmer_address approved s =
     (if \<not> is_verifier s sender then (Some ERR_NOT_VERIFIER, s)
      else
        (case claim_box s farmer_address of
           None \<Rightarrow> (Some ERR_CLAIM_NOT_FOUND, s)
         | Some claim \<Rightarrow>
             if \<not> status claim = 0 then (Some ERR_CLAIM_NOT_PENDING, s)
             else
               (let new_status = (if approved then 1 else 2);
                    updated_claim =
                      \<lparr>proof_hash = proof_hash claim, status = new_status,
                       submission_timestamp = submission_timestamp claim,
                       verifier_address = sender, verification_timestamp = now\<rparr>
                in if put_ok r (claim_size claim) (claim_size updated_claim)
                   then (None, s\<lparr>claim_box := (claim_box s)(farmer_address \<mapsto> updated_claim)\<rparr>)
                   else (Some Box_put_size_mismatch, s))))"

text \<open>
  In the branch without a box, \<^verbatim>\<open>create(size=32)\<close> makes a box of 32 zero bytes and
  \<^verbatim>\<open>put\<close> then overwrites it: two writes.
\<close>

definition add_verifier ::
  "put_rule \<Rightarrow> address \<Rightarrow> address \<Rightarrow> state \<Rightarrow> error option \<times> state" where
  "add_verifier r sender verifier s =
     (if \<not> sender = admin s then (Some ERR_NOT_ADMIN, s)
      else
        (case verifiers_box s of
           Some verifiers_bytes \<Rightarrow>
             if verifier_in_list verifiers_bytes (bytes_of verifier)
             then (Some ERR_VERIFIER_EXISTS, s)
             else
               (let new_verifiers = verifiers_bytes @ bytes_of verifier
                in if put_ok r (length verifiers_bytes) (length new_verifiers)
                   then (None, s\<lparr>verifiers_box := Some new_verifiers\<rparr>)
                   else (Some Box_put_size_mismatch, s))
         | None \<Rightarrow>
             (let s1 = s\<lparr>verifiers_box := Some (replicate 32 0)\<rparr>
              in if put_ok r 32 (length (bytes_of verifier))
                 then (None, s1\<lparr>verifiers_box := Some (bytes_of verifier)\<rparr>)
                 else (Some Box_put_size_mismatch, s1))))"

definition remove_verifier ::
  "put_rule \<Rightarrow> address \<Rightarrow> address \<Rightarrow> state \<Rightarrow> error option \<times> state" where
  "remove_verifier r sender verifier s =
     (if \<not> sender = admin s then (Some ERR_NOT_ADMIN, s)
      else
        (case verifiers_box s of
           None \<Rightarrow> (Some ERR_VERIFIER_NOT_FOUND, s)
         | Some verifiers_bytes \<Rightarrow>
             (let new_verifiers = remove_from_list verifiers_bytes (bytes_of verifier)
              in if \<not> length new_verifiers < length verifiers_bytes
                 then (Some ERR_VERIFIER_NOT_FOUND, s)
                 else if length new_verifiers = 0
                 then (None, s\<lparr>verifiers_box := None\<rparr>)
                 else if put_ok r (length verifiers_bytes) (length new_verifiers)
                 then (None, s\<lparr>verifiers_box := Some new_verifiers\<rparr>)
                 else (Some Box_put_size_mismatch, s))))"

text \<open>The read-only methods.\<close>

definition get_claim :: "state \<Rightarrow> address \<Rightarrow> error + Claim" where
  "get_claim s farmer_address =
     (case claim_box s farmer_address of
        None \<Rightarrow> Inl ERR_CLAIM_NOT_FOUND
      | Some claim \<Rightarrow> Inr claim)"

definition get_enrollment :: "state \<Rightarrow> address \<Rightarrow> error + Enrollment" where
  "get_enrollment s farmer_address =
     (case enrollment_box s farmer_address of
        None \<Rightarrow> Inl ERR_ENROLLMENT_NOT_FOUND
      | Some enrollment \<Rightarrow> Inr enrollment)"

definition get_admin :: "state \<Rightarrow> address" where
  "get_admin s = admin s"

subsection \<open>Calls and histories\<close>

text \<open>The five methods that write, each with its sender first.\<close>

datatype call =
    Enroll_farmer address uint64
  | Submit_claim address string
  | Verify_claim address address bool
  | Add_verifier address address
  | Remove_verifier address address

fun run_call :: "put_rule \<Rightarrow> uint64 \<Rightarrow> call \<Rightarrow> state \<Rightarrow> error option \<times> state" where
  "run_call r now (Enroll_farmer sender deadline_days) s = enroll_farmer r sender now deadline_days s"
| "run_call r now (Submit_claim sender hash) s = submit_claim r sender now hash s"
| "run_call r now (Verify_claim sender farmer approved) s = verify_claim r sender now farmer approved s"
| "run_call r now (Add_verifier sender verifier) s = add_verifier r sender verifier s"
| "run_call r now (Remove_verifier sender verifier) s = remove_verifier r sender verifier s"

text \<open>
  A history is a list of calls, each with the ledger time it ran at.  \<open>run_calls\<close> gives
  the state after a history in which every call succeeded, and the first error
  otherwise.  The reachable states are those of the histories that start at \<open>create\<close>.
\<close>

fun run_calls :: "put_rule \<Rightarrow> state \<Rightarrow> (uint64 \<times> call) list \<Rightarrow> error + state" where
  "run_calls r s [] = Inr s"
| "run_calls r s ((now, c) # cs) =
     (case run_call r now c s of
        (None, s') \<Rightarrow> run_calls r s' cs
      | (Some e, s') \<Rightarrow> Inl e)"

definition reachable :: "put_rule \<Rightarrow> state \<Rightarrow> bool" where
  "reachable r s = (\<exists>deployer history. run_calls r (create deployer) history = Inr s)"

subsection \<open>Lists of verifiers\<close>

text \<open>
  The verifier box read as a list of addresses: the bytes of a list, the box that holds
  it (none for the empty list), and the list after a call and after a history.
\<close>

definition blob_of :: "address list \<Rightarrow> bytes" where
  "blob_of vs = concat (map bytes_of vs)"

definition box_of :: "address list \<Rightarrow> bytes option" where
  "box_of vs = (if vs = [] then None else Some (blob_of vs))"

fun verifiers_step :: "address list \<Rightarrow> call \<Rightarrow> address list" where
  "verifiers_step vs (Add_verifier sender v) = vs @ [v]"
| "verifiers_step vs (Remove_verifier sender v) = filter (\<lambda>w. w \<noteq> v) vs"
| "verifiers_step vs c = vs"

definition verifiers_after :: "call list \<Rightarrow> address list" where
  "verifiers_after cs = foldl verifiers_step [] cs"


subsection \<open>A sample history\<close>

text \<open>
  The scenario used in the examples: account 1 deploys the contract and makes account 3
  a verifier; account 2 enrolls for 30 days at time 100; it then submits a claim at time
  200, which account 3 decides at time 300.
\<close>

definition demo_enrolled :: state where
  "demo_enrolled =
     \<lparr>admin = addr 1,
      enrollment_box = [addr 2 \<mapsto> \<lparr>enrollment_timestamp = 100, claim_deadline = 2592100\<rparr>],
      claim_box = Map.empty,
      verifiers_box = Some (bytes_of (addr 3))\<rparr>"

definition demo_pending :: state where
  "demo_pending =
     demo_enrolled\<lparr>claim_box :=
       [addr 2 \<mapsto> \<lparr>proof_hash = ''hash1'', status = PENDING, submission_timestamp = 200,
          verifier_address = zero_address, verification_timestamp = 0\<rparr>]\<rparr>"

definition demo_decided :: "bool \<Rightarrow> state" where
  "demo_decided approved =
     demo_enrolled\<lparr>claim_box :=
       [addr 2 \<mapsto> \<lparr>proof_hash = ''hash1'',
          status = (if approved then APPROVED else REJECTED), submission_timestamp = 200,
          verifier_address = addr 3, verification_timestamp = 300\<rparr>]\<rparr>"

section \<open>Basic facts\<close>

lemma length_bytes_of [simp]: "length (bytes_of a) = 32"
  using Rep_address [of a] by (simp add: bytes_of_def)

lemma bytes_of_inject [simp]: "bytes_of a = bytes_of b \<longleftrightarrow> a = b"
  by (simp add: bytes_of_def Rep_address_inject)

lemma bytes_of_addr: "bytes_of (addr b) = replicate 32 b"
  by (simp add: bytes_of_def addr_def Abs_address_inverse)

lemma addr_eq_iff [simp]: "addr b = addr c \<longleftrightarrow> b = c"
proof
  assume "addr b = addr c"
  then have "replicate 32 b = replicate 32 c"
    by (simp only: bytes_of_addr [symmetric])
  then show "b = c" by simp
next
  assume "b = c" then show "addr b = addr c" by simp
qed

lemma put_ok_same [simp]: "put_ok r n n"
  by (cases r) (simp_all add: put_ok_def)

lemma put_ok_Any_size [simp]: "put_ok Any_size m n"
  by (simp add: put_ok_def)

lemma put_ok_Exact_size [simp]: "put_ok Exact_size m n \<longleftrightarrow> m = n"
  by (simp add: put_ok_def)

section \<open>The verifier list as 32-byte entries\<close>

text \<open>Inside the two loops \<open>op_extract\<close> stays in range and yields 32 bytes.\<close>

lemma op_extract_in_range:
  assumes "i < length b div 32"
  shows "i * 32 + 32 \<le> length b \<and> length (op_extract b (i * 32) 32) = 32"
proof -
  from assms have "Suc i * 32 \<le> (length b div 32) * 32"
    by (simp only: mult_le_cancel2 Suc_le_eq) simp
  also have "\<dots> \<le> length b" by simp
  finally show ?thesis by (simp add: op_extract_def)
qed

lemma op_extract_head: "length c = 32 \<Longrightarrow> op_extract (c @ b) 0 32 = c"
  by (simp add: op_extract_def)

lemma op_extract_tail: "length c = 32 \<Longrightarrow> op_extract (c @ b) (32 + i * 32) 32 = op_extract b (i * 32) 32"
  by (simp add: op_extract_def)

lemma chunks_Nil [simp]: "chunks [] = []"
  by (simp add: chunks_def)

lemma chunks_Cons:
  assumes "length c = 32" shows "chunks (c @ b) = c # chunks b"
proof -
  have n: "length (c @ b) div 32 = Suc (length b div 32)"
    using assms by simp
  have "[0..<Suc (length b div 32)] = 0 # map Suc [0..<length b div 32]"
    by (simp add: upt_conv_Cons map_Suc_upt del: upt_Suc)
  then show ?thesis
    unfolding chunks_def n using assms
    by (simp add: op_extract_head op_extract_tail comp_def del: upt_Suc)
qed

lemma chunks_blob_of [simp]: "chunks (blob_of vs) = map bytes_of vs"
  by (induction vs) (simp_all add: blob_of_def chunks_Cons)

lemma length_blob_of [simp]: "length (blob_of vs) = 32 * length vs"
  by (induction vs) (simp_all add: blob_of_def)

lemma verifier_in_list_loop_set:
  "verifier_in_list_loop b a is \<longleftrightarrow> a \<in> set (map (\<lambda>i. op_extract b (i * 32) 32) is)"
  by (induction "is") auto

lemma verifier_in_list_chunks: "verifier_in_list b a \<longleftrightarrow> a \<in> set (chunks b)"
  by (simp add: verifier_in_list_def chunks_def verifier_in_list_loop_set del: set_map)

lemma remove_from_list_loop_filter:
  "remove_from_list_loop b a acc is =
     acc @ concat (filter (\<lambda>c. c \<noteq> a) (map (\<lambda>i. op_extract b (i * 32) 32) is))"
  by (induction "is" arbitrary: acc) (simp_all add: Let_def)

lemma remove_from_list_chunks:
  "remove_from_list b a = concat (filter (\<lambda>c. c \<noteq> a) (chunks b))"
  by (simp add: remove_from_list_def chunks_def remove_from_list_loop_filter)

lemma verifier_in_blob_of [simp]: "verifier_in_list (blob_of vs) (bytes_of a) \<longleftrightarrow> a \<in> set vs"
  by (auto simp: verifier_in_list_chunks)

lemma remove_from_blob_of [simp]:
  "remove_from_list (blob_of vs) (bytes_of a) = blob_of (filter (\<lambda>v. v \<noteq> a) vs)"
proof -
  have "filter (\<lambda>c. c \<noteq> bytes_of a) (map bytes_of vs) = map bytes_of (filter (\<lambda>v. v \<noteq> a) vs)"
    by (induction vs) simp_all
  then show ?thesis
    by (simp add: remove_from_list_chunks) (simp add: blob_of_def)
qed

lemma blob_of_snoc: "blob_of vs @ bytes_of a = blob_of (vs @ [a])"
  by (simp add: blob_of_def)

lemma blob_of_inject [simp]: "blob_of vs = blob_of ws \<longleftrightarrow> vs = ws"
proof
  assume "blob_of vs = blob_of ws"
  then have "chunks (blob_of vs) = chunks (blob_of ws)" by simp
  then have "map bytes_of vs = map bytes_of ws" by simp
  then show "vs = ws" by (simp add: inj_on_def inj_map_eq_map[unfolded inj_on_def])
qed simp

lemma blob_of_Cons: "blob_of (v # vs) = bytes_of v @ blob_of vs"
  by (simp add: blob_of_def)

lemma chunks_bytes_of [simp]: "chunks (bytes_of v @ b) = bytes_of v # chunks b"
  by (simp add: chunks_Cons)

lemma chunks_bytes_of_single [simp]: "chunks (bytes_of v) = [bytes_of v]"
  using chunks_bytes_of [of v "[]"] by simp

lemma verifier_in_list_Nil [simp]: "verifier_in_list [] a = False"
  by (simp add: verifier_in_list_chunks)

lemma verifier_in_list_bytes_of [simp]:
  "verifier_in_list (bytes_of v @ b) (bytes_of a) \<longleftrightarrow> a = v \<or> verifier_in_list b (bytes_of a)"
  by (auto simp: verifier_in_list_chunks)

lemma verifier_in_list_single [simp]: "verifier_in_list (bytes_of v) (bytes_of a) \<longleftrightarrow> a = v"
  by (auto simp: verifier_in_list_chunks)

lemma remove_from_list_Nil [simp]: "remove_from_list [] a = []"
  by (simp add: remove_from_list_chunks)

lemma remove_from_list_bytes_of [simp]:
  "remove_from_list (bytes_of v @ b) (bytes_of a) =
     (if v = a then [] else bytes_of v) @ remove_from_list b (bytes_of a)"
  by (simp add: remove_from_list_chunks)

lemma remove_from_list_single [simp]:
  "remove_from_list (bytes_of v) (bytes_of a) = (if v = a then [] else bytes_of v)"
  by (simp add: remove_from_list_chunks)

lemma blob_of_Nil_iff [simp]: "blob_of vs = [] \<longleftrightarrow> vs = []"
proof
  assume "blob_of vs = []"
  then have "length (blob_of vs) = 0" by (simp only: list.size)
  then show "vs = []" by simp
next
  assume "vs = []" then show "blob_of vs = []" by (simp add: blob_of_def)
qed

lemma is_verifier_box_of: "verifiers_box s = box_of vs \<Longrightarrow> is_verifier s a \<longleftrightarrow> a \<in> set vs"
  by (simp add: is_verifier_def box_of_def)

lemma length_filter_less_iff: "length (filter P vs) < length vs \<longleftrightarrow> (\<exists>v\<in>set vs. \<not> P v)"
  by (induction vs) (auto simp: less_Suc_eq_le)


lemma blob_of_single [simp]: "blob_of [v] = bytes_of v"
  by (simp add: blob_of_def)

lemma add_verifier_box_of:
  assumes "verifiers_box s = box_of vs"
  shows "add_verifier r sender v s = (None, s') \<longleftrightarrow>
           sender = admin s \<and> v \<notin> set vs \<and>
           (vs = [] \<or> put_ok r (32 * length vs) (32 * length vs + 32)) \<and>
           s' = s\<lparr>verifiers_box := box_of (vs @ [v])\<rparr>"
proof (cases "vs = []")
  case True
  with assms show ?thesis
    by (auto simp: add_verifier_def box_of_def Let_def)
next
  case False
  with assms have b: "verifiers_box s = Some (blob_of vs)"
    by (simp add: box_of_def)
  show ?thesis
    using False by (auto simp: add_verifier_def b box_of_def Let_def blob_of_snoc ac_simps)
qed

lemma remove_verifier_box_of:
  assumes "verifiers_box s = box_of vs"
  shows "remove_verifier r sender v s = (None, s') \<longleftrightarrow>
           sender = admin s \<and> v \<in> set vs \<and>
           (filter (\<lambda>w. w \<noteq> v) vs = [] \<or>
            put_ok r (32 * length vs) (32 * length (filter (\<lambda>w. w \<noteq> v) vs))) \<and>
           s' = s\<lparr>verifiers_box := box_of (filter (\<lambda>w. w \<noteq> v) vs)\<rparr>"
proof (cases "vs = []")
  case True
  with assms show ?thesis by (simp add: remove_verifier_def box_of_def)
next
  case False
  with assms have b: "verifiers_box s = Some (blob_of vs)"
    by (simp add: box_of_def)
  have l: "length (filter (\<lambda>w. w \<noteq> v) vs) < length vs \<longleftrightarrow> v \<in> set vs"
    by (simp add: length_filter_less_iff)
  show ?thesis
    by (auto simp: remove_verifier_def b box_of_def Let_def l)
qed

lemma remove_verifier_not_member:
  assumes "verifiers_box s = box_of vs" and "v \<notin> set vs"
  shows "remove_verifier r (admin s) v s = (Some ERR_VERIFIER_NOT_FOUND, s)"
proof (cases "vs = []")
  case True
  with assms show ?thesis by (simp add: remove_verifier_def box_of_def)
next
  case False
  with assms have b: "verifiers_box s = Some (blob_of vs)"
    by (simp add: box_of_def)
  have "filter (\<lambda>w. w \<noteq> v) vs = vs"
    using assms(2) by (induction vs) auto
  then show ?thesis
    by (simp add: remove_verifier_def b Let_def)
qed

section \<open>What each method does when it succeeds and when it aborts\<close>

lemma enroll_farmer_abort: "fst (enroll_farmer r sender now d s) \<noteq> None \<Longrightarrow> snd (enroll_farmer r sender now d s) = s"
  by (auto simp: enroll_farmer_def split: if_splits option.splits)

lemma submit_claim_abort: "fst (submit_claim r sender now hash s) \<noteq> None \<Longrightarrow> snd (submit_claim r sender now hash s) = s"
  by (auto simp: submit_claim_def split: if_splits option.splits)

lemma verify_claim_abort: "fst (verify_claim r sender now farmer approved s) \<noteq> None \<Longrightarrow> snd (verify_claim r sender now farmer approved s) = s"
  by (auto simp: verify_claim_def Let_def split: if_splits option.splits)

lemma add_verifier_abort: "fst (add_verifier r sender v s) \<noteq> None \<Longrightarrow> snd (add_verifier r sender v s) = s"
  by (auto simp: add_verifier_def Let_def split: if_splits option.splits)

lemma remove_verifier_abort: "fst (remove_verifier r sender v s) \<noteq> None \<Longrightarrow> snd (remove_verifier r sender v s) = s"
  by (auto simp: remove_verifier_def Let_def split: if_splits option.splits)

lemma verify_claim_success:
  "verify_claim r sender now farmer approved s = (None, s') \<longleftrightarrow>
     (\<exists>claim. is_verifier s sender \<and> claim_box s farmer = Some claim \<and> status claim = PENDING \<and>
        s' = s\<lparr>claim_box := (claim_box s)(farmer \<mapsto>
               \<lparr>proof_hash = proof_hash claim,
                status = (if approved then APPROVED else REJECTED),
                submission_timestamp = submission_timestamp claim,
                verifier_address = sender, verification_timestamp = now\<rparr>)\<rparr>)"
  by (auto simp: verify_claim_def Let_def claim_size_def PENDING_def APPROVED_def REJECTED_def
      split: option.splits)

lemma enroll_farmer_success:
  "enroll_farmer r sender now d s = (None, s') \<longleftrightarrow>
     0 < d \<and> enrollment_box s sender = None \<and> unat now + unat d * 86400 < 2 ^ 64 \<and> 
     s' = s\<lparr>enrollment_box := (enrollment_box s)(sender \<mapsto>
                        \<lparr>enrollment_timestamp = now, claim_deadline = now + d * 86400\<rparr>)\<rparr>"
proof -
  have m: "unat (d * 86400) = unat d * 86400" if "unat d * 86400 < 2 ^ 64"
    using that by (simp add: unat_word_ariths)
  show ?thesis
    by (auto simp: enroll_farmer_def checked_mul_def checked_add_def SECONDS_PER_DAY_def m
        split: option.splits if_splits)
qed

lemma submit_claim_success:
  "submit_claim r sender now hash s = (None, s') \<longleftrightarrow>
     hash \<noteq> [] \<and> (\<exists>e. enrollment_box s sender = Some e \<and> now < claim_deadline e) \<and>
     claim_box s sender = None \<and>
     s' = s\<lparr>claim_box := (claim_box s)(sender \<mapsto>
            \<lparr>proof_hash = hash, status = PENDING, submission_timestamp = now,
             verifier_address = zero_address, verification_timestamp = 0\<rparr>)\<rparr>"
  by (auto simp: submit_claim_def PENDING_def split: option.splits)

lemma add_verifier_frame:
  "add_verifier r sender v s = (None, s') \<Longrightarrow>
     admin s' = admin s \<and> enrollment_box s' = enrollment_box s \<and> claim_box s' = claim_box s"
  by (auto simp: add_verifier_def Let_def split: option.splits if_splits)

lemma remove_verifier_frame:
  "remove_verifier r sender v s = (None, s') \<Longrightarrow>
     admin s' = admin s \<and> enrollment_box s' = enrollment_box s \<and> claim_box s' = claim_box s"
  by (auto simp: remove_verifier_def Let_def split: option.splits if_splits)

lemma run_call_admin: "run_call r now c s = (None, s') \<Longrightarrow> admin s' = admin s"
  by (cases c)
    (auto simp: enroll_farmer_success submit_claim_success verify_claim_success
      dest: add_verifier_frame remove_verifier_frame)

lemma run_call_enrollment_kept:
  "run_call r now c s = (None, s') \<Longrightarrow> enrollment_box s a = Some e \<Longrightarrow>
     enrollment_box s' a = Some e"
  by (cases c)
    (auto simp: enroll_farmer_success submit_claim_success verify_claim_success
      dest: add_verifier_frame remove_verifier_frame)





lemma run_calls_invariant:
  assumes "run_calls r s history = Inr s'" and "P s"
    and "\<And>now c t t'. P t \<Longrightarrow> run_call r now c t = (None, t') \<Longrightarrow> P t'"
  shows "P s'"
  using assms(1,2)
proof (induction history arbitrary: s)
  case Nil
  then show ?case by simp
next
  case (Cons x history)
  obtain now c where x: "x = (now, c)" by (cases x)
  from Cons.prems(1) obtain t where t: "run_call r now c s = (None, t)"
    and rest: "run_calls r t history = Inr s'"
    by (auto simp: x split: prod.splits option.splits)
  from assms(3) [OF Cons.prems(2) t] rest show ?case
    by (rule Cons.IH [rotated])
qed

lemma run_calls_snoc:
  "run_calls r s (history @ [(now, c)]) = Inr s' \<longleftrightarrow>
     (\<exists>t. run_calls r s history = Inr t \<and> run_call r now c t = (None, s'))"
proof (induction history arbitrary: s)
  case Nil
  show ?case by (auto split: prod.splits option.splits)
next
  case (Cons x history)
  obtain now' c' where x: "x = (now', c')" by (cases x)
  show ?case
    by (cases "run_call r now' c' s") (auto simp: x Cons.IH split: option.splits)
qed

lemma reachableI: "run_calls r (create deployer) history = Inr s \<Longrightarrow> reachable r s"
  unfolding reachable_def by blast


lemma reachable_run_calls:
  "reachable r s \<Longrightarrow> run_calls r s history = Inr s' \<Longrightarrow> reachable r s'"
proof (induction history arbitrary: s' rule: rev_induct)
  case Nil
  then show ?case by simp
next
  case (snoc x history)
  obtain now c where x: "x = (now, c)" by (cases x)
  from snoc.prems(2) obtain t where t: "run_calls r s history = Inr t"
    and c: "run_call r now c t = (None, s')"
    by (auto simp: x run_calls_snoc)
  from snoc.IH [OF snoc.prems(1) t] obtain deployer h
    where "run_calls r (create deployer) h = Inr t"
    unfolding reachable_def by blast
  with c have "run_calls r (create deployer) (h @ [(now, c)]) = Inr s'"
    by (auto simp: run_calls_snoc)
  then show ?case by (rule reachableI)
qed

text \<open>
  Under the exact-size rule an existing verifier box cannot grow: \<open>add_verifier\<close> of a new
  address aborts at its \<open>put\<close>.
\<close>

lemma add_verifier_Exact_size_existing_box:
  assumes "verifiers_box s = Some b" and "\<not> verifier_in_list b (bytes_of v)"
  shows "add_verifier Exact_size (admin s) v s = (Some Box_put_size_mismatch, s)"
  using assms by (simp add: add_verifier_def)

section \<open>Histories\<close>

lemma verifiers_after_snoc [simp]:
  "verifiers_after (cs @ [c]) = verifiers_step (verifiers_after cs) c"
  by (simp add: verifiers_after_def)

lemma verifiers_after_Nil [simp]: "verifiers_after [] = []"
  by (simp add: verifiers_after_def)

lemma run_call_verifiers_step:
  assumes "run_call r now c s = (None, s')" and "verifiers_box s = box_of vs" and "distinct vs"
  shows "verifiers_box s' = box_of (verifiers_step vs c) \<and> distinct (verifiers_step vs c)"
proof (cases c)
  case (Add_verifier sender v)
  with assms show ?thesis by (auto simp: add_verifier_box_of)
next
  case (Remove_verifier sender v)
  with assms show ?thesis by (auto simp: remove_verifier_box_of)
qed (use assms in \<open>auto simp: enroll_farmer_success submit_claim_success verify_claim_success\<close>)

lemma run_calls_verifiers_after:
  assumes "run_calls r s history = Inr s'" and "verifiers_box s = None"
  shows "verifiers_box s' = box_of (verifiers_after (map snd history)) \<and>
         distinct (verifiers_after (map snd history))"
  using assms(1)
proof (induction history arbitrary: s' rule: rev_induct)
  case Nil
  with assms(2) show ?case by (simp add: box_of_def)
next
  case (snoc x history)
  obtain now c where x: "x = (now, c)" by (cases x)
  from snoc.prems obtain t where t: "run_calls r s history = Inr t"
    and c: "run_call r now c t = (None, s')"
    by (auto simp: x run_calls_snoc)
  from snoc.IH [OF t] run_call_verifiers_step [OF c] show ?case
    by (simp add: x)
qed





lemma run_calls_enrollment_kept:
  assumes "run_calls r s history = Inr s'" and "enrollment_box s a = Some e"
  shows "enrollment_box s' a = Some e"
  using assms by (rule run_calls_invariant) (rule run_call_enrollment_kept)





lemma reachable_verifiers:
  assumes "reachable r s"
  shows "\<exists>vs. distinct vs \<and> verifiers_box s = box_of vs"
proof -
  from assms obtain deployer history
    where "run_calls r (create deployer) history = Inr s"
    unfolding reachable_def by blast
  from run_calls_verifiers_after [OF this] show ?thesis
    by (auto simp: create_def)
qed


section \<open>The sample history\<close>

lemmas eval_defs = create_def add_verifier_def remove_verifier_def enroll_farmer_def
  submit_claim_def verify_claim_def is_verifier_def checked_mul_def checked_add_def
  SECONDS_PER_DAY_def APPROVED_def PENDING_def REJECTED_def claim_size_def
  demo_enrolled_def demo_pending_def demo_decided_def

lemma demo_enrolled_history:
  "run_calls r (create (addr 1))
     [(100, Add_verifier (addr 1) (addr 3)), (100, Enroll_farmer (addr 2) 30)] =
   Inr demo_enrolled"
  by (simp add: eval_defs)

lemma demo_pending_history:
  "run_calls r (create (addr 1))
     [(100, Add_verifier (addr 1) (addr 3)), (100, Enroll_farmer (addr 2) 30),
      (200, Submit_claim (addr 2) ''hash1'')] =
   Inr demo_pending"
  by (simp add: eval_defs)

lemma demo_decided_history:
  "run_calls r (create (addr 1))
     [(100, Add_verifier (addr 1) (addr 3)), (100, Enroll_farmer (addr 2) 30),
      (200, Submit_claim (addr 2) ''hash1''),
      (300, Verify_claim (addr 3) (addr 2) approved)] =
   Inr (demo_decided approved)"
  by (simp add: eval_defs)

lemma demo_reachable:
  "reachable r demo_enrolled" "reachable r demo_pending" "reachable r (demo_decided approved)"
  by (rule reachableI, rule demo_enrolled_history)
    (rule reachableI, rule demo_pending_history, rule reachableI, rule demo_decided_history)

section \<open>The claims\<close>







text \<open>
  \<^bold>\<open>C3\<close>.  Each of \<open>enroll_farmer\<close>, \<open>submit_claim\<close>, \<open>verify_claim\<close>, \<open>add_verifier\<close>
  and \<open>remove_verifier\<close>, from every state: when the call aborts, the store at the abort
  (enrollments, claims, verifier box and admin) is the store the call started from.  No
  write comes before a check that can fail.
\<close>

theorem failed_call_leaves_store:
  "(fst (enroll_farmer r sender now deadline_days s) \<noteq> None \<longrightarrow>
      snd (enroll_farmer r sender now deadline_days s) = s) \<and>
   (fst (submit_claim r sender now hash s) \<noteq> None \<longrightarrow>
      snd (submit_claim r sender now hash s) = s) \<and>
   (fst (verify_claim r sender now farmer approved s) \<noteq> None \<longrightarrow>
      snd (verify_claim r sender now farmer approved s) = s) \<and>
   (fst (add_verifier r sender verifier s) \<noteq> None \<longrightarrow>
      snd (add_verifier r sender verifier s) = s) \<and>
   (fst (remove_verifier r sender verifier s) \<noteq> None \<longrightarrow>
      snd (remove_verifier r sender verifier s) = s)"
  by (intro conjI impI enroll_farmer_abort submit_claim_abort verify_claim_abort
      add_verifier_abort remove_verifier_abort)

text \<open>The theorem at the sample history.\<close>

theorem failed_call_leaves_store_witness:
  "enroll_farmer Any_size (addr 2) 500 7 demo_enrolled = (Some ERR_ALREADY_ENROLLED, demo_enrolled) \<and>
   submit_claim Any_size (addr 2) 500 [] demo_enrolled = (Some ERR_INVALID_PROOF_HASH, demo_enrolled) \<and>
   verify_claim Any_size (addr 2) 500 (addr 2) True demo_enrolled = (Some ERR_NOT_VERIFIER, demo_enrolled) \<and>
   add_verifier Any_size (addr 2) (addr 4) demo_enrolled = (Some ERR_NOT_ADMIN, demo_enrolled) \<and>
   remove_verifier Any_size (addr 2) (addr 4) demo_enrolled = (Some ERR_NOT_ADMIN, demo_enrolled) \<and>
   add_verifier Exact_size (addr 1) (addr 4) demo_enrolled = (Some Box_put_size_mismatch, demo_enrolled)"
proof -
  have f: "fst (enroll_farmer Any_size (addr 2) 500 7 demo_enrolled) = Some ERR_ALREADY_ENROLLED"
    "fst (submit_claim Any_size (addr 2) 500 [] demo_enrolled) = Some ERR_INVALID_PROOF_HASH"
    "fst (verify_claim Any_size (addr 2) 500 (addr 2) True demo_enrolled) = Some ERR_NOT_VERIFIER"
    "fst (add_verifier Any_size (addr 2) (addr 4) demo_enrolled) = Some ERR_NOT_ADMIN"
    "fst (remove_verifier Any_size (addr 2) (addr 4) demo_enrolled) = Some ERR_NOT_ADMIN"
    "fst (add_verifier Exact_size (addr 1) (addr 4) demo_enrolled) = Some Box_put_size_mismatch"
    by (simp_all add: eval_defs)
  note t = failed_call_leaves_store [where r = Any_size and sender = "addr 2" and now = 500
      and deadline_days = 7 and s = demo_enrolled and hash = "[]" and farmer = "addr 2"
      and approved = True and verifier = "addr 4"]
  note u = failed_call_leaves_store [where r = Exact_size and sender = "addr 1"
      and s = demo_enrolled and verifier = "addr 4"]
  from t u f show ?thesis
    by (simp add: prod_eq_iff)
qed

text \<open>
  \<^bold>\<open>C4\<close>.  For an enrolled sender with a non-empty proof hash and no claim record,
  \<open>submit_claim\<close> fails with \<open>ERR_DEADLINE_PASSED\<close> exactly when
  \<open>claim_deadline \<le> now\<close>; when \<open>now < claim_deadline\<close> it succeeds and writes, for the
  sender only, the record with the given hash, status \<open>PENDING\<close>, submission time \<open>now\<close>,
  the zero address as verifier and verification time 0.
\<close>

theorem submit_claim_deadline_boundary:
  assumes "enrollment_box s sender = Some enrollment" and "hash \<noteq> []"
    and "claim_box s sender = None"
  shows "(fst (submit_claim r sender now hash s) = Some ERR_DEADLINE_PASSED
            \<longleftrightarrow> claim_deadline enrollment \<le> now) \<and>
         (now < claim_deadline enrollment \<longrightarrow>
            submit_claim r sender now hash s =
              (None, s\<lparr>claim_box := (claim_box s)(sender \<mapsto>
                 \<lparr>proof_hash = hash, status = PENDING, submission_timestamp = now,
                  verifier_address = zero_address, verification_timestamp = 0\<rparr>)\<rparr>))"
  using assms by (simp add: submit_claim_def PENDING_def not_less)

text \<open>The theorem at the sample history.\<close>

theorem submit_claim_deadline_boundary_witness:
  "enrollment_box demo_enrolled (addr 2) =
     Some \<lparr>enrollment_timestamp = 100, claim_deadline = 2592100\<rparr> \<and>
   claim_box demo_enrolled (addr 2) = None \<and>
   fst (submit_claim Any_size (addr 2) 2592100 ''hash1'' demo_enrolled) = Some ERR_DEADLINE_PASSED \<and>
   fst (submit_claim Any_size (addr 2) 2592099 ''hash1'' demo_enrolled) \<noteq> Some ERR_DEADLINE_PASSED \<and>
   submit_claim Any_size (addr 2) 200 ''hash1'' demo_enrolled = (None, demo_pending)"
proof -
  have e: "enrollment_box demo_enrolled (addr 2) =
     Some \<lparr>enrollment_timestamp = 100, claim_deadline = 2592100\<rparr>"
    and c: "claim_box demo_enrolled (addr 2) = None"
    and h: "''hash1'' \<noteq> []"
    and ce: "claim_box demo_enrolled = Map.empty"
    by (simp_all add: eval_defs)
  note t = submit_claim_deadline_boundary [OF e h c]
  from t [of Any_size 2592100] t [of Any_size 2592099] t [of Any_size 200] e c
  show ?thesis
    by (simp add: demo_pending_def ce)
qed

text \<open>
  \<^bold>\<open>C5\<close>, in the form that holds of the code.  \<open>enroll_farmer\<close> of a sender that is enrolled already always
  fails and writes nothing: with \<open>ERR_ALREADY_ENROLLED\<close> for every \<open>deadline_days\<close> other
  than 0, and with \<open>ERR_INVALID_DEADLINE\<close> for \<open>deadline_days = 0\<close>, which the method
  checks first.
\<close>

theorem second_enroll_fails:
  assumes "enrollment_box s sender \<noteq> None"
  shows "enroll_farmer r sender now deadline_days s =
           (Some (if deadline_days = 0 then ERR_INVALID_DEADLINE else ERR_ALREADY_ENROLLED), s)"
  using assms by (simp add: enroll_farmer_def word_greater_zero_iff)

text \<open>The theorem at the sample history.\<close>

theorem second_enroll_fails_witness:
  "enrollment_box demo_enrolled (addr 2) \<noteq> None \<and>
   enroll_farmer Any_size (addr 2) 500 7 demo_enrolled =
     (Some ERR_ALREADY_ENROLLED, demo_enrolled) \<and>
   enroll_farmer Any_size (addr 2) 500 0 demo_enrolled =
     (Some ERR_INVALID_DEADLINE, demo_enrolled)"
proof -
  have e: "enrollment_box demo_enrolled (addr 2) \<noteq> None"
    by (simp add: eval_defs)
  from second_enroll_fails [OF e, of Any_size 500 7]
    second_enroll_fails [OF e, of Any_size 500 0] e
  show ?thesis by simp
qed

text \<open>
  \<^bold>\<open>C5\<close> with \<open>ERR_ALREADY_ENROLLED\<close> for every \<open>deadline_days\<close> does not hold at
  \<open>deadline_days = 0\<close>: the enrolled farmer gets
  \<open>ERR_INVALID_DEADLINE\<close>.
\<close>

theorem second_enroll_zero_days:
  "run_calls Any_size (create (addr 1))
     [(100, Add_verifier (addr 1) (addr 3)), (100, Enroll_farmer (addr 2) 30)] =
     Inr demo_enrolled \<and>
   enrollment_box demo_enrolled (addr 2) \<noteq> None \<and>
   enroll_farmer Any_size (addr 2) 500 0 demo_enrolled =
     (Some ERR_INVALID_DEADLINE, demo_enrolled) \<and>
   fst (enroll_farmer Any_size (addr 2) 500 0 demo_enrolled) \<noteq> Some ERR_ALREADY_ENROLLED"
  by (simp add: eval_defs)



text \<open>
  \<^bold>\<open>C7\<close>.  From every state without a verifier box, \<open>add_verifier\<close> of \<open>v\<close> by the
  admin succeeds and \<open>remove_verifier\<close> of \<open>v\<close> by the admin then gives back the very
  state the two calls started from, the box absent again.  No reachable state has an
  empty verifier box.  In a reachable state, \<open>remove_verifier\<close> by the admin of an address
  that is no verifier fails with \<open>ERR_VERIFIER_NOT_FOUND\<close> and leaves the store as it was.
\<close>

theorem verifier_add_remove_roundtrip:
  "(verifiers_box s = None \<longrightarrow>
      (\<exists>s1. add_verifier r (admin s) v s = (None, s1) \<and>
         verifiers_box s1 = Some (bytes_of v) \<and>
         remove_verifier r (admin s) v s1 = (None, s))) \<and>
   (reachable r s \<longrightarrow> verifiers_box s \<noteq> Some []) \<and>
   (reachable r s \<and> \<not> is_verifier s v \<longrightarrow>
      remove_verifier r (admin s) v s = (Some ERR_VERIFIER_NOT_FOUND, s))"
proof -
  have roundtrip: "\<exists>s1. add_verifier r (admin s) v s = (None, s1) \<and>
      verifiers_box s1 = Some (bytes_of v) \<and> remove_verifier r (admin s) v s1 = (None, s)"
    if none: "verifiers_box s = None"
  proof -
    let ?s1 = "s\<lparr>verifiers_box := Some (bytes_of v)\<rparr>"
    have a: "add_verifier r (admin s) v s = (None, ?s1)"
      using none by (simp add: add_verifier_def)
    have "remove_from_list (bytes_of v) (bytes_of v) = []"
      using remove_from_blob_of [of "[v]" v] by simp
    then have "remove_verifier r (admin s) v ?s1 = (None, ?s1\<lparr>verifiers_box := None\<rparr>)"
      by (simp add: remove_verifier_def)
    moreover have "?s1\<lparr>verifiers_box := None\<rparr> = s"
      using none by (cases s) simp
    ultimately show ?thesis using a by simp
  qed
  have nonempty: "verifiers_box s \<noteq> Some []" if "reachable r s"
    using reachable_verifiers [OF that] by (auto simp: box_of_def split: if_splits)
  have missing: "remove_verifier r (admin s) v s = (Some ERR_VERIFIER_NOT_FOUND, s)"
    if "reachable r s" and "\<not> is_verifier s v"
  proof -
    from reachable_verifiers [OF that(1)] obtain vs where vs: "verifiers_box s = box_of vs"
      by blast
    with that(2) have "v \<notin> set vs" by (simp add: is_verifier_box_of)
    with vs show ?thesis by (rule remove_verifier_not_member)
  qed
  from roundtrip nonempty missing show ?thesis by blast
qed

text \<open>The theorem at the sample history.\<close>

theorem verifier_add_remove_roundtrip_witness:
  "verifiers_box (create (addr 1)) = None \<and>
   add_verifier Any_size (addr 1) (addr 3) (create (addr 1)) =
     (None, (create (addr 1))\<lparr>verifiers_box := Some (bytes_of (addr 3))\<rparr>) \<and>
   remove_verifier Any_size (addr 1) (addr 3)
       ((create (addr 1))\<lparr>verifiers_box := Some (bytes_of (addr 3))\<rparr>) =
     (None, create (addr 1)) \<and>
   reachable Any_size demo_enrolled \<and>
   verifiers_box demo_enrolled \<noteq> Some [] \<and>
   \<not> is_verifier demo_enrolled (addr 4) \<and>
   remove_verifier Any_size (addr 1) (addr 4) demo_enrolled =
     (Some ERR_VERIFIER_NOT_FOUND, demo_enrolled)"
proof -
  have none: "verifiers_box (create (addr 1)) = None"
    and adm: "admin (create (addr 1)) = addr 1" "admin demo_enrolled = addr 1"
    and v4: "\<not> is_verifier demo_enrolled (addr 4)"
    by (simp_all add: eval_defs)
  have r: "reachable Any_size demo_enrolled"
    by (rule demo_reachable)
  note t = verifier_add_remove_roundtrip [where r = Any_size and s = "create (addr 1)"
      and v = "addr 3", THEN conjunct1, rule_format, OF none]
  note u = verifier_add_remove_roundtrip [where r = Any_size and s = demo_enrolled
      and v = "addr 4", THEN conjunct2]
  from t have "add_verifier Any_size (addr 1) (addr 3) (create (addr 1)) =
      (None, (create (addr 1))\<lparr>verifiers_box := Some (bytes_of (addr 3))\<rparr>) \<and>
    remove_verifier Any_size (addr 1) (addr 3)
       ((create (addr 1))\<lparr>verifiers_box := Some (bytes_of (addr 3))\<rparr>) =
     (None, create (addr 1))"
    by (auto simp: adm add_verifier_def none)
  with u r v4 none show ?thesis
    by (simp add: adm)
qed



text \<open>
  \<^bold>\<open>C9\<close>.  After a successful \<open>enroll_farmer\<close> the sender's record has
  \<open>enrollment_timestamp = now\<close> and, as numbers without wrap-around,
  \<open>claim_deadline = now + deadline_days * 86400\<close>; for 30 days that is \<open>now + 2592000\<close>.
  The record is the same after every later history of successful calls.
\<close>

theorem enrollment_deadline_arithmetic:
  assumes "enroll_farmer r sender now deadline_days s = (None, s')"
  shows "\<exists>e. enrollment_box s' sender = Some e \<and> enrollment_timestamp e = now \<and>
           unat (claim_deadline e) = unat now + unat deadline_days * 86400 \<and>
           (deadline_days = 30 \<longrightarrow> claim_deadline e = now + 2592000 \<and>
              unat (claim_deadline e) = unat now + 2592000) \<and>
           (\<forall>history s''. run_calls r s' history = Inr s'' \<longrightarrow>
              enrollment_box s'' sender = Some e)"
proof -
  let ?e = "\<lparr>enrollment_timestamp = now, claim_deadline = now + deadline_days * 86400\<rparr>"
  from assms have bound: "unat now + unat deadline_days * 86400 < 2 ^ 64"
    and s': "enrollment_box s' sender = Some ?e"
    by (auto simp: enroll_farmer_success)
  from bound have "unat (deadline_days * 86400) = unat deadline_days * 86400"
    by (simp add: unat_word_ariths)
  with bound have exact: "unat (now + deadline_days * 86400) = unat now + unat deadline_days * 86400"
    by (simp add: unat_word_ariths)
  have kept: "enrollment_box s'' sender = Some ?e" if "run_calls r s' history = Inr s''"
    for history s''
    using that s' by (rule run_calls_enrollment_kept)
  from s' exact kept show ?thesis
    by (intro exI [of _ ?e]) auto
qed

text \<open>The theorem at the sample history.\<close>

theorem enrollment_deadline_arithmetic_witness:
  "enroll_farmer Any_size (addr 2) 100 30
       ((create (addr 1))\<lparr>verifiers_box := Some (bytes_of (addr 3))\<rparr>) =
     (None, demo_enrolled) \<and>
   enrollment_box demo_enrolled (addr 2) =
     Some \<lparr>enrollment_timestamp = 100, claim_deadline = 100 + 2592000\<rparr> \<and>
   run_calls Any_size demo_enrolled
     [(200, Submit_claim (addr 2) ''hash1''), (300, Verify_claim (addr 3) (addr 2) True)] =
     Inr (demo_decided True) \<and>
   enrollment_box (demo_decided True) (addr 2) =
     Some \<lparr>enrollment_timestamp = 100, claim_deadline = 100 + 2592000\<rparr>"
proof -
  have e: "enroll_farmer Any_size (addr 2) 100 30
       ((create (addr 1))\<lparr>verifiers_box := Some (bytes_of (addr 3))\<rparr>) = (None, demo_enrolled)"
    and h: "run_calls Any_size demo_enrolled
     [(200, Submit_claim (addr 2) ''hash1''), (300, Verify_claim (addr 3) (addr 2) True)] =
     Inr (demo_decided True)"
    by (simp_all add: eval_defs)
  from enrollment_deadline_arithmetic [OF e] obtain en
    where en: "enrollment_box demo_enrolled (addr 2) = Some en"
      and ts: "enrollment_timestamp en = 100"
      and dl: "claim_deadline en = 100 + 2592000"
      and kept: "\<forall>history s''. run_calls Any_size demo_enrolled history = Inr s'' \<longrightarrow>
          enrollment_box s'' (addr 2) = Some en"
    by auto
  from ts dl have "en = \<lparr>enrollment_timestamp = 100, claim_deadline = 100 + 2592000\<rparr>"
    by (cases en) simp
  with en kept [rule_format, OF h] e h show ?thesis by simp
qed



end
